theory Spec2Isabelle
  imports Main "HOL-Library.Finite_Map"
begin

section \<open>JavaScript string primitives used by the plugin\<close>

text \<open>
  File names and paths are JavaScript strings. The plugin only ever searches for the
  one-character strings \<open>"."\<close>, \<open>"_"\<close> and \<open>"/"\<close>, so a string is modelled as a list of
  characters and the search argument as a single character.

  \<open>indexOf\<close> and \<open>lastIndexOf\<close> return \<open>-1\<close> when the character does not occur, hence
  the result type \<open>int\<close>.
\<close>

fun indexOf :: "string \<Rightarrow> char \<Rightarrow> int" where
  "indexOf [] c = - 1"
| "indexOf (x # xs) c =
     (if x = c then 0
      else (let i = indexOf xs c in if i < 0 then - 1 else i + 1))"

fun lastIndexOf :: "string \<Rightarrow> char \<Rightarrow> int" where
  "lastIndexOf [] c = - 1"
| "lastIndexOf (x # xs) c =
     (let i = lastIndexOf xs c in
      if 0 \<le> i then i + 1 else if x = c then 0 else - 1)"

text \<open>
  \<open>String.prototype.substring\<close> clamps each index into \<open>[0, length]\<close> (a negative index
  counts as \<open>0\<close>) and swaps the two indices when the first is the larger one. With one
  argument the end index is the length of the string.
\<close>

definition clampIndex :: "string \<Rightarrow> int \<Rightarrow> nat" where
  "clampIndex s i = (if i < 0 then 0 else min (nat i) (length s))"

definition substring :: "string \<Rightarrow> int \<Rightarrow> int \<Rightarrow> string" where
  "substring s a b =
     (let x = clampIndex s a; y = clampIndex s b
      in take (max x y - min x y) (drop (min x y) s))"

definition substringFrom :: "string \<Rightarrow> int \<Rightarrow> string" where
  "substringFrom s a = drop (clampIndex s a) s"

text \<open>\<open>a || b\<close> on strings: the empty string is falsy.\<close>

definition orElse :: "string \<Rightarrow> string \<Rightarrow> string" where
  "orElse a b = (if a = [] then b else a)"

subsection \<open>Number to string\<close>

text \<open>
  \<open>Number.prototype.toString(radix)\<close> on a non-negative integer: most significant digit
  first, digits \<open>0-9a-z\<close>, no leading zero, \<open>"0"\<close> for zero. A radix outside \<open>2..36\<close> raises
  a RangeError in JavaScript; the plugin only uses radix 36 (explicitly) and radix 10
  (template-literal interpolation of the counter), and the model returns the empty string
  for any other radix outside the range.
\<close>

definition digitChars :: string where
  "digitChars = ''0123456789abcdefghijklmnopqrstuvwxyz''"

definition digitChar :: "nat \<Rightarrow> char" where
  "digitChar d = digitChars ! d"

function toStringRadix :: "nat \<Rightarrow> nat \<Rightarrow> string" where
  "toStringRadix r n =
     (if r < 2 \<or> 36 < r then []
      else if n < r then [digitChar n]
      else toStringRadix r (n div r) @ [digitChar (n mod r)])"
  by pat_completeness auto
termination
  by (relation "measure (\<lambda>(r, n). n)") auto

declare toStringRadix.simps [simp del]

text \<open>The value of a digit string in a radix, used to state what \<open>toStringRadix\<close> encodes.\<close>

fun digitValue :: "char \<Rightarrow> nat" where
  "digitValue c = nat (indexOf digitChars c)"

definition parseRadix :: "nat \<Rightarrow> string \<Rightarrow> nat" where
  "parseRadix r s = foldl (\<lambda>acc c. acc * r + digitValue c) 0 s"

section \<open>The filename prefix transform\<close>

text \<open>
  \<open>Date.now()\<close> is read inside \<open>processFilenameWithPrefix\<close>; the model takes the clock
  reading \<open>now\<close> (milliseconds since the epoch, not negative) as an argument.
  \<open>Math.floor(Date.now() / 1000).toString(36).split('').reverse().join('')\<close>
\<close>

definition cepoch :: "nat \<Rightarrow> string" where
  "cepoch now = rev (toStringRadix 36 (now div 1000))"

definition processFilenameWithPrefix :: "string \<Rightarrow> bool \<Rightarrow> nat \<Rightarrow> string" where
  "processFilenameWithPrefix originalName addPrefix now =
     (if \<not> addPrefix then originalName
      else
        (let lastDotIndex = lastIndexOf originalName CHR ''.'';
             extension = (if 0 < lastDotIndex then substringFrom originalName lastDotIndex else []);
             nameWithoutExt =
               (if 0 < lastDotIndex then substring originalName 0 lastDotIndex else originalName);
             underscoreIndex = indexOf nameWithoutExt CHR ''_'';
             baseName =
               (if 0 < underscoreIndex then substringFrom nameWithoutExt (underscoreIndex + 1)
                else nameWithoutExt)
         in cepoch now @ ''_'' @ baseName @ extension))"

section \<open>Destination paths and the conflict-resolving path generator\<close>

text \<open>
  \<open>targetFolder ? `${targetFolder}/${fileName}` : fileName\<close>, the expression both commands
  (and the loop of \<open>duplicateFileToFolder\<close>) use to build a path in the target folder.
\<close>

definition destinationPath :: "string \<Rightarrow> string \<Rightarrow> string" where
  "destinationPath targetFolder fileName =
     (if targetFolder \<noteq> [] then targetFolder @ ''/'' @ fileName else fileName)"

text \<open>The parse of \<open>duplicateFileToFolder\<close>: the constants \<open>baseName\<close> and \<open>extension\<close>.\<close>

definition baseNameOf :: "string \<Rightarrow> string" where
  "baseNameOf processedFileName =
     orElse (substring processedFileName 0 (lastIndexOf processedFileName CHR ''.''))
       processedFileName"

definition extensionOf :: "string \<Rightarrow> string" where
  "extensionOf processedFileName =
     orElse (substringFrom processedFileName (lastIndexOf processedFileName CHR ''.'')) []"

text \<open>
  The body of the loop: \<open>numberedName = `${baseName} ${counter}${extension}`\<close>, placed in the
  target folder.
\<close>

definition numberedPath :: "string \<Rightarrow> string \<Rightarrow> string \<Rightarrow> nat \<Rightarrow> string" where
  "numberedPath targetFolder baseName extension counter =
     destinationPath targetFolder (baseName @ '' '' @ toStringRadix 10 counter @ extension)"

text \<open>
  The \<open>while\<close> loop. \<open>exists\<close> is the host's existence check
  (\<open>getAbstractFileByPath(newPath)\<close> is truthy). The loop need not terminate, so it is a
  partial function: \<open>None\<close> stands for a loop that runs forever. The counter is a JavaScript
  number; it is an exact integer as long as it stays below \<open>2^53\<close>, and is modelled as a
  natural number.
\<close>

partial_function (option) findAvailablePath ::
  "(string \<Rightarrow> bool) \<Rightarrow> string \<Rightarrow> string \<Rightarrow> string \<Rightarrow> string \<Rightarrow> nat \<Rightarrow> (string \<times> nat) option"
where
  "findAvailablePath exists targetFolder baseName extension newPath counter =
     (if exists newPath
      then findAvailablePath exists targetFolder baseName extension
             (numberedPath targetFolder baseName extension counter) (counter + 1)
      else Some (newPath, counter))"

text \<open>Lines 339 to 357 of \<open>duplicateFileToFolder\<close>: parse, first candidate, loop.\<close>

definition availablePath :: "(string \<Rightarrow> bool) \<Rightarrow> string \<Rightarrow> string \<Rightarrow> string option" where
  "availablePath exists targetFolder processedFileName =
     (let baseName = baseNameOf processedFileName;
          extension = extensionOf processedFileName;
          newPath = destinationPath targetFolder processedFileName
      in map_option fst (findAvailablePath exists targetFolder baseName extension newPath 1))"

text \<open>
  The sequence of candidates in the words of the specification: the desired name first,
  then the numbered names \<open>1, 2, ...\<close>.
\<close>

definition candidatePath :: "string \<Rightarrow> string \<Rightarrow> nat \<Rightarrow> string" where
  "candidatePath targetFolder fileName k =
     (if k = 0 then destinationPath targetFolder fileName
      else numberedPath targetFolder (baseNameOf fileName) (extensionOf fileName) k)"

section \<open>The host application\<close>

text \<open>
  The vault maps a path to the item stored there (\<open>getAbstractFileByPath\<close>); a vault holds
  finitely many items. The workspace has at most one active item.
\<close>

datatype TAbstractFile =
    TFile (name: string) (path: string)
  | TFolder (name: string) (path: string)

record App =
  vault :: "(string, TAbstractFile) fmap"
  activeFile :: "TAbstractFile option"

text \<open>
  The host API calls that can throw are parameters of the model. Each returns either the
  message of the thrown \<open>Error\<close> (\<open>Inl\<close>) or its result together with the host state after
  the call. A call that throws leaves the host state as it was. The lookups
  \<open>getActiveFile\<close> and \<open>getAbstractFileByPath\<close> do not throw.
\<close>

record host =
  createFolder :: "App \<Rightarrow> string \<Rightarrow> string + App"
  read :: "App \<Rightarrow> TAbstractFile \<Rightarrow> string + string"
  create :: "App \<Rightarrow> string \<Rightarrow> string \<Rightarrow> string + TAbstractFile \<times> App"
  renameFile :: "App \<Rightarrow> TAbstractFile \<Rightarrow> string \<Rightarrow> string + App"
  openFile :: "App \<Rightarrow> TAbstractFile \<Rightarrow> string + App"

datatype hostCall =
    CreateFolder string
  | Read string
  | Create string string
  | RenameFile string string
  | OpenFile string

text \<open>
  The state a command runs in: the host, the notices shown to the user, the lines written
  with \<open>console.error\<close> (label and error message), and the host calls made so far.
\<close>

record state =
  app :: App
  notices :: "string list"
  console :: "(string \<times> string) list"
  calls :: "hostCall list"

definition Notice :: "string \<Rightarrow> state \<Rightarrow> state" where
  "Notice message s = s\<lparr>notices := notices s @ [message]\<rparr>"

definition consoleError :: "string \<Rightarrow> string \<Rightarrow> state \<Rightarrow> state" where
  "consoleError label error s = s\<lparr>console := console s @ [(label, error)]\<rparr>"

definition getAbstractFileByPath :: "state \<Rightarrow> string \<Rightarrow> TAbstractFile option" where
  "getAbstractFileByPath s p = fmlookup (vault (app s)) p"

definition getActiveFile :: "state \<Rightarrow> TAbstractFile option" where
  "getActiveFile s = activeFile (app s)"

text \<open>
  A statement that may throw returns \<open>Inl message\<close> or \<open>Inr value\<close>, with the state it
  leaves behind.
\<close>

definition callCreateFolder :: "host \<Rightarrow> string \<Rightarrow> state \<Rightarrow> (string + unit) \<times> state" where
  "callCreateFolder h folderPath s =
     (let s' = s\<lparr>calls := calls s @ [CreateFolder folderPath]\<rparr>
      in case createFolder h (app s) folderPath of
           Inl e \<Rightarrow> (Inl e, s')
         | Inr a \<Rightarrow> (Inr (), s'\<lparr>app := a\<rparr>))"

definition callRead :: "host \<Rightarrow> TAbstractFile \<Rightarrow> state \<Rightarrow> (string + string) \<times> state" where
  "callRead h file s =
     (let s' = s\<lparr>calls := calls s @ [Read (path file)]\<rparr>
      in case read h (app s) file of
           Inl e \<Rightarrow> (Inl e, s')
         | Inr content \<Rightarrow> (Inr content, s'))"

definition callCreate ::
  "host \<Rightarrow> string \<Rightarrow> string \<Rightarrow> state \<Rightarrow> (string + TAbstractFile) \<times> state" where
  "callCreate h newPath content s =
     (let s' = s\<lparr>calls := calls s @ [Create newPath content]\<rparr>
      in case create h (app s) newPath content of
           Inl e \<Rightarrow> (Inl e, s')
         | Inr (newFile, a) \<Rightarrow> (Inr newFile, s'\<lparr>app := a\<rparr>))"

definition callRenameFile ::
  "host \<Rightarrow> TAbstractFile \<Rightarrow> string \<Rightarrow> state \<Rightarrow> (string + unit) \<times> state" where
  "callRenameFile h file newPath s =
     (let s' = s\<lparr>calls := calls s @ [RenameFile (path file) newPath]\<rparr>
      in case renameFile h (app s) file newPath of
           Inl e \<Rightarrow> (Inl e, s')
         | Inr a \<Rightarrow> (Inr (), s'\<lparr>app := a\<rparr>))"

definition callOpenFile :: "host \<Rightarrow> TAbstractFile \<Rightarrow> state \<Rightarrow> (string + unit) \<times> state" where
  "callOpenFile h file s =
     (let s' = s\<lparr>calls := calls s @ [OpenFile (path file)]\<rparr>
      in case openFile h (app s) file of
           Inl e \<Rightarrow> (Inl e, s')
         | Inr a \<Rightarrow> (Inr (), s'\<lparr>app := a\<rparr>))"

section \<open>The commands\<close>

definition ensureFolderExists :: "host \<Rightarrow> string \<Rightarrow> state \<Rightarrow> (string + unit) \<times> state" where
  "ensureFolderExists h folderPath s =
     (if folderPath = [] then (Inr (), s)
      else case getAbstractFileByPath s folderPath of
             Some folder \<Rightarrow> (Inr (), s)
           | None \<Rightarrow> callCreateFolder h folderPath s)"

text \<open>The \<open>try\<close> block of \<open>moveCurrentFileToFolder\<close>.\<close>

definition moveTry ::
  "host \<Rightarrow> nat \<Rightarrow> TAbstractFile \<Rightarrow> string \<Rightarrow> bool \<Rightarrow> state \<Rightarrow> (string + unit) \<times> state" where
  "moveTry h now file targetFolder addPrefix s =
     (case ensureFolderExists h targetFolder s of
        (Inl e, s1) \<Rightarrow> (Inl e, s1)
      | (Inr u, s1) \<Rightarrow>
          (let newFileName = processFilenameWithPrefix (name file) addPrefix now;
               newPath = destinationPath targetFolder newFileName
           in if getAbstractFileByPath s1 newPath \<noteq> None
              then (Inr (), Notice (''File already exists at '' @ newPath) s1)
              else (case callRenameFile h file newPath s1 of
                      (Inl e, s2) \<Rightarrow> (Inl e, s2)
                    | (Inr u', s2) \<Rightarrow>
                        (Inr (),
                         Notice (''Moved '' @ [CHR 0x22] @ name file @ [CHR 0x22] @ '' to ''
                                   @ orElse targetFolder ''vault root'') s2))))"

text \<open>
  The whole command: the two guards, the \<open>try\<close> block and the \<open>catch\<close> handler. The result
  is \<open>Inr ()\<close> when the function returns normally and \<open>Inl message\<close> when an exception
  leaves it.
\<close>

definition moveCurrentFileToFolder ::
  "host \<Rightarrow> nat \<Rightarrow> string \<Rightarrow> bool \<Rightarrow> state \<Rightarrow> (string + unit) \<times> state" where
  "moveCurrentFileToFolder h now targetFolder addPrefix s =
     (case getActiveFile s of
        None \<Rightarrow> (Inr (), Notice ''No active file to move'' s)
      | Some (TFolder n p) \<Rightarrow> (Inr (), Notice ''Active item is not a file'' s)
      | Some (TFile n p) \<Rightarrow>
          (case moveTry h now (TFile n p) targetFolder addPrefix s of
             (Inr u, s') \<Rightarrow> (Inr (), s')
           | (Inl error, s') \<Rightarrow>
               (Inr (),
                Notice (''Error moving file: '' @ error)
                  (consoleError ''Error moving file:'' error s'))))"

text \<open>
  The \<open>try\<close> block of \<open>duplicateFileToFolder\<close>. The result is \<open>None\<close> when the loop never
  finds a free path.
\<close>

definition duplicateTry ::
  "host \<Rightarrow> nat \<Rightarrow> TAbstractFile \<Rightarrow> string \<Rightarrow> bool \<Rightarrow> state
     \<Rightarrow> ((string + unit) \<times> state) option" where
  "duplicateTry h now file targetFolder addPrefix s =
     (case ensureFolderExists h targetFolder s of
        (Inl e, s1) \<Rightarrow> Some (Inl e, s1)
      | (Inr u, s1) \<Rightarrow>
          (case callRead h file s1 of
             (Inl e, s2) \<Rightarrow> Some (Inl e, s2)
           | (Inr content, s2) \<Rightarrow>
               (let processedFileName = processFilenameWithPrefix (name file) addPrefix now
                in case availablePath (\<lambda>p. getAbstractFileByPath s2 p \<noteq> None)
                          targetFolder processedFileName of
                     None \<Rightarrow> None
                   | Some newPath \<Rightarrow>
                       (case callCreate h newPath content s2 of
                          (Inl e, s3) \<Rightarrow> Some (Inl e, s3)
                        | (Inr newFile, s3) \<Rightarrow>
                            (case callOpenFile h newFile s3 of
                               (Inl e, s4) \<Rightarrow> Some (Inl e, s4)
                             | (Inr u', s4) \<Rightarrow>
                                 Some (Inr (),
                                   Notice (''Duplicated '' @ [CHR 0x22] @ name file @ [CHR 0x22]
                                             @ '' to '' @ orElse targetFolder ''vault root'')
                                     s4))))))"

definition duplicateFileToFolder ::
  "host \<Rightarrow> nat \<Rightarrow> string \<Rightarrow> bool \<Rightarrow> state \<Rightarrow> ((string + unit) \<times> state) option" where
  "duplicateFileToFolder h now targetFolder addPrefix s =
     (case getActiveFile s of
        None \<Rightarrow> Some (Inr (), Notice ''No active file to duplicate'' s)
      | Some (TFolder n p) \<Rightarrow> Some (Inr (), Notice ''Active item is not a file'' s)
      | Some (TFile n p) \<Rightarrow>
          (case duplicateTry h now (TFile n p) targetFolder addPrefix s of
             None \<Rightarrow> None
           | Some (Inr u, s') \<Rightarrow> Some (Inr (), s')
           | Some (Inl error, s') \<Rightarrow>
               Some (Inr (),
                 Notice (''Error duplicating file: '' @ error)
                   (consoleError ''Error duplicating file:'' error s'))))"

definition moveToParentFolder :: "host \<Rightarrow> nat \<Rightarrow> state \<Rightarrow> (string + unit) \<times> state" where
  "moveToParentFolder h now s =
     (case getActiveFile s of
        None \<Rightarrow> (Inr (), Notice ''No active file to move'' s)
      | Some file \<Rightarrow>
          (let currentPath = path file;
               parentPath = substring currentPath 0 (lastIndexOf currentPath CHR ''/'');
               grandParentPath = substring parentPath 0 (lastIndexOf parentPath CHR ''/'')
           in if grandParentPath = [] then moveCurrentFileToFolder h now [] False s
              else moveCurrentFileToFolder h now grandParentPath False s))"

section \<open>Example hosts and states\<close>

text \<open>
  Two hosts and a few vault states on which the commands are run on concrete inputs: a host
  that keeps the vault in memory and never throws, and a host whose every call throws an
  \<open>Error\<close> with a given message.
\<close>

definition lastSegment :: "string \<Rightarrow> string" where
  "lastSegment p = substringFrom p (lastIndexOf p CHR ''/'' + 1)"

definition memoryHost :: host where
  "memoryHost =
     \<lparr>createFolder = (\<lambda>a p.
         Inr (a\<lparr>vault := fmupd p (TFolder (lastSegment p) p) (vault a)\<rparr>)),
      read = (\<lambda>a file. Inr ''text''),
      create = (\<lambda>a p content.
         Inr (TFile (lastSegment p) p,
              a\<lparr>vault := fmupd p (TFile (lastSegment p) p) (vault a)\<rparr>)),
      renameFile = (\<lambda>a file p.
         Inr (a\<lparr>vault := fmupd p (TFile (lastSegment p) p) (fmdrop (path file) (vault a))\<rparr>)),
      openFile = (\<lambda>a file. Inr (a\<lparr>activeFile := Some file\<rparr>))\<rparr>"

definition failingHost :: "string \<Rightarrow> host" where
  "failingHost message =
     \<lparr>createFolder = (\<lambda>a p. Inl message),
      read = (\<lambda>a file. Inl message),
      create = (\<lambda>a p content. Inl message),
      renameFile = (\<lambda>a file p. Inl message),
      openFile = (\<lambda>a file. Inl message)\<rparr>"

definition rootFileState :: "string \<Rightarrow> state" where
  "rootFileState fileName =
     \<lparr>app = \<lparr>vault = fmupd fileName (TFile fileName fileName) fmempty,
              activeFile = Some (TFile fileName fileName)\<rparr>,
      notices = [], console = [], calls = []\<rparr>"

definition idleState :: state where
  "idleState = \<lparr>app = \<lparr>vault = fmempty, activeFile = None\<rparr>,
                notices = [], console = [], calls = []\<rparr>"

definition collisionState :: state where
  "collisionState =
     \<lparr>app = \<lparr>vault = fmupd ''Archive/a.md'' (TFile ''a.md'' ''Archive/a.md'')
                       (fmupd ''Archive'' (TFolder ''Archive'' ''Archive'')
                         (fmupd ''a.md'' (TFile ''a.md'' ''a.md'') fmempty)),
              activeFile = Some (TFile ''a.md'' ''a.md'')\<rparr>,
      notices = [], console = [], calls = []\<rparr>"

definition nestedFileState :: state where
  "nestedFileState =
     \<lparr>app = \<lparr>vault = fmupd ''A/b.md'' (TFile ''b.md'' ''A/b.md'')
                       (fmupd ''A'' (TFolder ''A'' ''A'') fmempty),
              activeFile = Some (TFile ''b.md'' ''A/b.md'')\<rparr>,
      notices = [], console = [], calls = []\<rparr>"


section \<open>Facts about the string primitives\<close>



lemma indexOf_lower: "- 1 \<le> indexOf s c"
  by (induction s) (auto simp: Let_def)

lemma indexOf_first: "c \<notin> set a \<Longrightarrow> indexOf (a @ c # b) c = int (length a)"
  by (induction a) (auto simp: Let_def)


lemma lastIndexOf_absent: "c \<notin> set s \<Longrightarrow> lastIndexOf s c = - 1"
  by (induction s) auto

lemma lastIndexOf_last: "c \<notin> set b \<Longrightarrow> lastIndexOf (a @ c # b) c = int (length a)"
  by (induction a) (auto simp: Let_def lastIndexOf_absent)

lemma lastIndexOf_neg_iff: "lastIndexOf s c < 0 \<longleftrightarrow> c \<notin> set s"
proof
  assume neg: "lastIndexOf s c < 0"
  show "c \<notin> set s"
  proof
    assume "c \<in> set s"
    then obtain a b where "s = a @ c # b" "c \<notin> set b"
      by (meson split_list_last)
    then have "lastIndexOf s c = int (length a)" by (simp add: lastIndexOf_last)
    with neg show False by simp
  qed
next
  assume "c \<notin> set s" then show "lastIndexOf s c < 0" by (simp add: lastIndexOf_absent)
qed

lemma substring_prefix: "substring (a @ b) 0 (int (length a)) = a"
  by (simp add: substring_def clampIndex_def)

lemma substringFrom_suffix: "substringFrom (a @ b) (int (length a)) = b"
  by (simp add: substringFrom_def clampIndex_def)

lemma substringFrom_suffix1: "substringFrom (a @ c # b) (int (length a) + 1) = b"
  by (simp add: substringFrom_def clampIndex_def nat_add_distrib)

lemma toStringRadix_nonempty: "2 \<le> r \<Longrightarrow> r \<le> 36 \<Longrightarrow> toStringRadix r n \<noteq> []"
  by (subst toStringRadix.simps) simp

lemma length_digitChars: "length digitChars = 36"
  by (simp add: digitChars_def)

lemma distinct_digitChars: "distinct digitChars"
  by (simp add: digitChars_def)

lemma digitChar_mem: "d < 36 \<Longrightarrow> digitChar d \<in> set digitChars"
  unfolding digitChar_def by (rule nth_mem) (simp add: length_digitChars)

lemma toStringRadix_chars: "set (toStringRadix r n) \<subseteq> set digitChars"
proof (induction r n rule: toStringRadix.induct)
  case (1 r n)
  show ?case
  proof (cases "r < 2 \<or> 36 < r")
    case True
    then show ?thesis by (subst toStringRadix.simps) simp
  next
    case range: False
    show ?thesis
    proof (cases "n < r")
      case True
      with range have "n < 36" by simp
      with range True show ?thesis
        by (subst toStringRadix.simps) (simp add: digitChar_mem)
    next
      case False
      from range have "n mod r < r" by simp
      with range have "n mod r < 36" by linarith
      with 1 range False show ?thesis
        by (subst toStringRadix.simps) (simp add: digitChar_mem)
    qed
  qed
qed

lemma indexOf_nth: "distinct xs \<Longrightarrow> d < length xs \<Longrightarrow> indexOf xs (xs ! d) = int d"
proof (induction xs arbitrary: d)
  case Nil
  then show ?case by simp
next
  case (Cons x xs)
  show ?case
  proof (cases d)
    case 0
    then show ?thesis by simp
  next
    case (Suc e)
    with Cons.prems have "xs ! e \<noteq> x" "e < length xs" "distinct xs" by auto
    with Cons.IH [of e] Suc show ?thesis by (simp add: Let_def)
  qed
qed

lemma digitValue_digitChar: "d < 36 \<Longrightarrow> digitValue (digitChar d) = d"
  by (simp add: digitChar_def indexOf_nth distinct_digitChars length_digitChars)

lemma parseRadix_snoc: "parseRadix r (s @ [c]) = parseRadix r s * r + digitValue c"
  by (simp add: parseRadix_def)

lemma parseRadix_toStringRadix:
  "2 \<le> r \<Longrightarrow> r \<le> 36 \<Longrightarrow> parseRadix r (toStringRadix r n) = n"
proof (induction r n rule: toStringRadix.induct)
  case (1 r n)
  show ?case
  proof (cases "n < r")
    case True
    with "1.prems" have "n < 36" by simp
    then have "digitValue (digitChar n) = n" by (rule digitValue_digitChar)
    moreover from True "1.prems" have "toStringRadix r n = [digitChar n]"
      by (subst toStringRadix.simps) simp
    ultimately show ?thesis by (simp add: parseRadix_def del: digitValue.simps)
  next
    case False
    from "1.prems" have "n mod r < r" by simp
    with "1.prems" have "n mod r < 36" by linarith
    then have dv: "digitValue (digitChar (n mod r)) = n mod r" by (rule digitValue_digitChar)
    from False "1.prems" have unf: "toStringRadix r n = toStringRadix r (n div r) @ [digitChar (n mod r)]"
      by (subst toStringRadix.simps) simp
    from "1.IH" False "1.prems" have "parseRadix r (toStringRadix r (n div r)) = n div r" by simp
    with dv unf show ?thesis by (simp add: parseRadix_snoc del: digitValue.simps)
  qed
qed

lemma toStringRadix_inj:
  assumes "2 \<le> r" "r \<le> 36" "toStringRadix r m = toStringRadix r n"
  shows "m = n"
proof -
  have "parseRadix r (toStringRadix r m) = parseRadix r (toStringRadix r n)"
    using assms(3) by simp
  with assms(1,2) show ?thesis by (simp only: parseRadix_toStringRadix)
qed

section \<open>The prefix transform and the path generator\<close>


lemma lastIndexOf_split:
  assumes "0 \<le> lastIndexOf s c"
  shows "\<exists>a b. s = a @ c # b \<and> c \<notin> set b \<and> lastIndexOf s c = int (length a)"
proof -
  from assms have "c \<in> set s" using lastIndexOf_neg_iff [of s c] by simp
  then obtain a b where "s = a @ c # b" "c \<notin> set b" by (meson split_list_last)
  then show ?thesis using lastIndexOf_last [of c b a] by blast
qed

lemma substring_prefix_cons: "substring (a @ c # b) 0 (int (length a)) = a"
  using substring_prefix [of a "c # b"] by simp

lemma substringFrom_suffix_cons: "substringFrom (a @ c # b) (int (length a)) = c # b"
  using substringFrom_suffix [of a "c # b"] by simp

lemma cepoch_nonempty: "cepoch now \<noteq> []"
  by (simp add: cepoch_def toStringRadix_nonempty)

lemma cepoch_chars: "set (cepoch now) \<subseteq> set digitChars"
  by (simp add: cepoch_def toStringRadix_chars)

lemma cepoch_no_underscore: "CHR ''_'' \<notin> set (cepoch now)"
proof -
  have "CHR ''_'' \<notin> set digitChars" by (simp add: digitChars_def)
  then show ?thesis using cepoch_chars [of now] by blast
qed

lemma cepoch_no_dot: "CHR ''.'' \<notin> set (cepoch now)"
proof -
  have "CHR ''.'' \<notin> set digitChars" by (simp add: digitChars_def)
  then show ?thesis using cepoch_chars [of now] by blast
qed

lemma reprefix:
  assumes c: "c \<noteq> []" "CHR ''_'' \<notin> set c" "CHR ''.'' \<notin> set c"
  shows "processFilenameWithPrefix (c @ ''_'' @ T) True now = cepoch now @ ''_'' @ T"
proof (cases "CHR ''.'' \<in> set T")
  case False
  with c have "CHR ''.'' \<notin> set (c @ ''_'' @ T)" by simp
  then have dot: "lastIndexOf (c @ ''_'' @ T) CHR ''.'' = - 1" by (rule lastIndexOf_absent)
  from c have us: "indexOf (c @ ''_'' @ T) CHR ''_'' = int (length c)"
    using indexOf_first [of "CHR ''_''" c T] by simp
  from c have "0 < int (length c)" by simp
  with dot us show ?thesis
    using substringFrom_suffix1 [of c "CHR ''_''" T]
    by (simp add: processFilenameWithPrefix_def)
next
  case True
  then obtain T1 T2 where T: "T = T1 @ CHR ''.'' # T2" "CHR ''.'' \<notin> set T2"
    by (meson split_list_last)
  let ?stem = "c @ ''_'' @ T1"
  have whole: "c @ ''_'' @ T = ?stem @ CHR ''.'' # T2" using T by simp
  have dot: "lastIndexOf (?stem @ CHR ''.'' # T2) CHR ''.'' = int (length ?stem)"
    using T(2) by (rule lastIndexOf_last)
  have pos: "0 < int (length ?stem)" by simp
  have ext: "substringFrom (?stem @ CHR ''.'' # T2) (int (length ?stem)) = CHR ''.'' # T2"
    by (rule substringFrom_suffix_cons)
  have stem: "substring (?stem @ CHR ''.'' # T2) 0 (int (length ?stem)) = ?stem"
    by (rule substring_prefix_cons)
  from c have us: "indexOf ?stem CHR ''_'' = int (length c)"
    using indexOf_first [of "CHR ''_''" c T1] by simp
  from c have cpos: "0 < int (length c)" by simp
  have base: "substringFrom ?stem (int (length c) + 1) = T1"
    using substringFrom_suffix1 [of c "CHR ''_''" T1] by simp
  have "processFilenameWithPrefix (?stem @ CHR ''.'' # T2) True now
          = cepoch now @ ''_'' @ T1 @ CHR ''.'' # T2"
    unfolding processFilenameWithPrefix_def Let_def dot
    using pos cpos by (simp only: ext stem us base if_True if_False not_True_eq_False)
  with whole T show ?thesis by simp
qed

lemma prefixed_shape: "\<exists>T. processFilenameWithPrefix originalName True now = cepoch now @ ''_'' @ T"
  by (simp add: processFilenameWithPrefix_def Let_def)

lemma reprefix_twice:
  assumes "processFilenameWithPrefix originalName True now = cepoch now @ ''_'' @ T"
  shows "processFilenameWithPrefix (processFilenameWithPrefix originalName True now) True later
           = cepoch later @ ''_'' @ T"
  unfolding assms
  by (rule reprefix) (simp_all add: cepoch_nonempty cepoch_no_underscore cepoch_no_dot)

text \<open>
  Claim C3. At a fixed clock reading, applying the transform twice gives the same name as
  applying it once.
\<close>

theorem processFilenameWithPrefix_idempotent:
  "processFilenameWithPrefix (processFilenameWithPrefix originalName True now) True now
     = processFilenameWithPrefix originalName True now"
proof -
  obtain T where T: "processFilenameWithPrefix originalName True now = cepoch now @ ''_'' @ T"
    using prefixed_shape by blast
  show ?thesis using reprefix_twice [OF T, of now] T by simp
qed


lemma destinationPath_inj: "destinationPath f a = destinationPath f b \<Longrightarrow> a = b"
  by (simp add: destinationPath_def split: if_splits)

lemma numberedPath_inj:
  assumes "numberedPath f b e m = numberedPath f b e n"
  shows "m = n"
proof -
  from assms have "toStringRadix 10 m = toStringRadix 10 n"
    by (auto simp: numberedPath_def dest: destinationPath_inj)
  then show ?thesis using toStringRadix_inj [of 10 m n] by simp
qed

lemma findAvailablePath_free:
  "\<not> ex p \<Longrightarrow> findAvailablePath ex f b e p c = Some (p, c)"
  by (subst findAvailablePath.simps) simp

lemma findAvailablePath_taken:
  "ex p \<Longrightarrow> findAvailablePath ex f b e p c
            = findAvailablePath ex f b e (numberedPath f b e c) (c + 1)"
  by (subst findAvailablePath.simps) simp

lemma findAvailablePath_run:
  assumes "ex p" "c \<le> k" "\<forall>j. c \<le> j \<and> j < k \<longrightarrow> ex (numberedPath f b e j)"
    "\<not> ex (numberedPath f b e k)"
  shows "findAvailablePath ex f b e p c = Some (numberedPath f b e k, k + 1)"
  using assms
proof (induction "k - c" arbitrary: c p)
  case 0
  then have "c = k" by simp
  with 0 show ?case
    by (simp add: findAvailablePath_taken findAvailablePath_free)
next
  case (Suc d)
  then have lt: "c < k" by simp
  with Suc.prems have next_taken: "ex (numberedPath f b e c)" by simp
  from Suc.hyps(2) have d: "d = k - (c + 1)" by simp
  have "findAvailablePath ex f b e (numberedPath f b e c) (c + 1)
          = Some (numberedPath f b e k, k + 1)"
    using Suc.hyps(1) [OF d next_taken] lt Suc.prems(3,4) by simp
  with Suc.prems(1) show ?case by (simp add: findAvailablePath_taken)
qed

lemma free_number_exists:
  assumes "finite {p. ex p}"
  shows "\<exists>k\<ge>c. \<not> ex (numberedPath f b e k)"
proof (rule ccontr)
  assume "\<not> ?thesis"
  then have "numberedPath f b e ` {c..} \<subseteq> {p. ex p}" by auto
  then have "finite (numberedPath f b e ` {c..})" using assms by (rule finite_subset)
  moreover have "inj_on (numberedPath f b e) {c..}"
    by (rule inj_onI) (rule numberedPath_inj)
  ultimately have "finite {c..}" by (rule finite_imageD)
  then show False by (simp add: infinite_Ici)
qed

lemma least_free_number:
  assumes "finite {p. ex p}"
  shows "\<exists>k\<ge>c. \<not> ex (numberedPath f b e k) \<and> (\<forall>j. c \<le> j \<and> j < k \<longrightarrow> ex (numberedPath f b e j))"
proof -
  let ?P = "\<lambda>k. c \<le> k \<and> \<not> ex (numberedPath f b e k)"
  from free_number_exists [OF assms] have ex: "\<exists>k. ?P k" by blast
  define k where "k = (LEAST k. ?P k)"
  from ex have Pk: "?P k" unfolding k_def by (rule LeastI_ex)
  have "\<And>j. j < k \<Longrightarrow> \<not> ?P j" unfolding k_def by (rule not_less_Least)
  with Pk show ?thesis by blast
qed

lemma parse_lengths: "length fileName \<le> length (baseNameOf fileName) + length (extensionOf fileName)"
proof (cases "lastIndexOf fileName CHR ''.'' < 0")
  case True
  then have "lastIndexOf fileName CHR ''.'' = - 1"
    using lastIndexOf_neg_iff lastIndexOf_absent by blast
  then show ?thesis
    by (simp add: baseNameOf_def substring_def clampIndex_def orElse_def)
next
  case False
  then obtain a b where split: "fileName = a @ CHR ''.'' # b"
      "lastIndexOf fileName CHR ''.'' = int (length a)"
    using lastIndexOf_split [of fileName "CHR ''.''"] by auto
  have "substring fileName 0 (lastIndexOf fileName CHR ''.'') = a"
    unfolding split(2) unfolding split(1) by (rule substring_prefix_cons)
  moreover have "substringFrom fileName (lastIndexOf fileName CHR ''.'') = CHR ''.'' # b"
    unfolding split(2) unfolding split(1) by (rule substringFrom_suffix_cons)
  ultimately show ?thesis
    using split(1) by (simp add: baseNameOf_def extensionOf_def orElse_def)
qed

lemma candidatePath_inj:
  assumes "candidatePath f n j = candidatePath f n k"
  shows "j = k"
proof -
  have differ: "destinationPath f n \<noteq> numberedPath f (baseNameOf n) (extensionOf n) m" for m
  proof
    assume "destinationPath f n = numberedPath f (baseNameOf n) (extensionOf n) m"
    then have "n = baseNameOf n @ '' '' @ toStringRadix 10 m @ extensionOf n"
      unfolding numberedPath_def by (rule destinationPath_inj)
    then have "length n = length (baseNameOf n @ '' '' @ toStringRadix 10 m @ extensionOf n)"
      by simp
    with parse_lengths [of n] show False by simp
  qed
  show ?thesis
  proof (cases "j = 0 \<or> k = 0")
    case True
    with assms differ differ [THEN not_sym] show ?thesis
      by (auto simp: candidatePath_def split: if_splits)
  next
    case False
    with assms show ?thesis
      by (auto simp: candidatePath_def dest: numberedPath_inj)
  qed
qed





theorem processFilenameWithPrefix_idempotent_witness:
  "processFilenameWithPrefix ''.gitignore'' True 5000 = ''5_.gitignore'' \<and>
   processFilenameWithPrefix ''5_.gitignore'' True 5000 = ''5_.gitignore''"
proof -
  have "processFilenameWithPrefix ''.gitignore'' True 5000 = ''5_.gitignore''"
    by (simp add: processFilenameWithPrefix_def Let_def cepoch_def substring_def
        substringFrom_def clampIndex_def toStringRadix.simps digitChar_def digitChars_def)
  then show ?thesis
    using processFilenameWithPrefix_idempotent [of "''.gitignore''" 5000] by simp
qed


text \<open>
  Claim C1. Whenever the set of occupied paths is finite, the loop of
  \<open>duplicateFileToFolder\<close> terminates. It returns the first free path of the sequence
  desired name, name numbered 1, name numbered 2, ...: the path returned is not occupied,
  every earlier candidate is, and the counter has been incremented once per iteration. The
  number of iterations is at most the number of occupied paths.
\<close>

theorem availablePath_first_free:
  assumes "finite occupied"
  shows "\<exists>k. findAvailablePath (\<lambda>p. p \<in> occupied) targetFolder (baseNameOf fileName)
                (extensionOf fileName) (destinationPath targetFolder fileName) 1
              = Some (candidatePath targetFolder fileName k, k + 1) \<and>
             availablePath (\<lambda>p. p \<in> occupied) targetFolder fileName
              = Some (candidatePath targetFolder fileName k) \<and>
             candidatePath targetFolder fileName k \<notin> occupied \<and>
             (\<forall>j<k. candidatePath targetFolder fileName j \<in> occupied) \<and>
             k \<le> card occupied"
proof -
  let ?ex = "\<lambda>p. p \<in> occupied"
  let ?b = "baseNameOf fileName" and ?e = "extensionOf fileName"
  let ?loop = "findAvailablePath ?ex targetFolder ?b ?e (destinationPath targetFolder fileName) 1"
  have bound: "k \<le> card occupied" if "\<forall>j<k. candidatePath targetFolder fileName j \<in> occupied" for k
  proof -
    from that have "candidatePath targetFolder fileName ` {..<k} \<subseteq> occupied" by auto
    then have "card (candidatePath targetFolder fileName ` {..<k}) \<le> card occupied"
      using assms by (simp add: card_mono)
    moreover have "inj_on (candidatePath targetFolder fileName) {..<k}"
      by (rule inj_onI) (rule candidatePath_inj)
    ultimately show ?thesis by (simp add: card_image)
  qed
  have "\<exists>k. ?loop = Some (candidatePath targetFolder fileName k, k + 1) \<and>
          candidatePath targetFolder fileName k \<notin> occupied \<and>
          (\<forall>j<k. candidatePath targetFolder fileName j \<in> occupied)"
  proof (cases "destinationPath targetFolder fileName \<in> occupied")
    case False
    then have "?loop = Some (candidatePath targetFolder fileName 0, 0 + 1)"
      by (simp add: findAvailablePath_free candidatePath_def)
    with False show ?thesis by (auto simp: candidatePath_def)
  next
    case True
    from assms have "finite {p. ?ex p}" by simp
    from least_free_number [OF this, of 1 targetFolder ?b ?e]
    obtain k where k: "1 \<le> k" "numberedPath targetFolder ?b ?e k \<notin> occupied"
      "\<forall>j. 1 \<le> j \<and> j < k \<longrightarrow> numberedPath targetFolder ?b ?e j \<in> occupied"
      by blast
    have "?loop = Some (numberedPath targetFolder ?b ?e k, k + 1)"
      using True k by (intro findAvailablePath_run) simp_all
    moreover have "\<forall>j<k. candidatePath targetFolder fileName j \<in> occupied"
      using True k(3) by (auto simp: candidatePath_def)
    ultimately show ?thesis using k(1,2) by (auto simp: candidatePath_def)
  qed
  then obtain k where k: "?loop = Some (candidatePath targetFolder fileName k, k + 1)"
      "candidatePath targetFolder fileName k \<notin> occupied"
      "\<forall>j<k. candidatePath targetFolder fileName j \<in> occupied"
    by blast
  from k(1) have "availablePath ?ex targetFolder fileName
                    = Some (candidatePath targetFolder fileName k)"
    by (simp add: availablePath_def)
  with k bound [OF k(3)] show ?thesis by blast
qed

theorem availablePath_first_free_witness:
  "finite {''a.md'', ''a 1.md''} \<and>
   availablePath (\<lambda>p. p \<in> {''a.md'', ''a 1.md''}) [] ''a.md'' = Some ''a 2.md'' \<and>
   (\<exists>k. availablePath (\<lambda>p. p \<in> {''a.md'', ''a 1.md''}) [] ''a.md''
          = Some (candidatePath [] ''a.md'' k) \<and> k \<le> card {''a.md'', ''a 1.md''})"
proof -
  have fin: "finite {''a.md'', ''a 1.md''}" by simp
  have base: "baseNameOf ''a.md'' = ''a''"
    by (simp add: baseNameOf_def substring_def clampIndex_def orElse_def)
  have ext: "extensionOf ''a.md'' = ''.md''"
    by (simp add: extensionOf_def substringFrom_def clampIndex_def orElse_def)
  have run: "availablePath (\<lambda>p. p \<in> {''a.md'', ''a 1.md''}) [] ''a.md'' = Some ''a 2.md''"
    by (simp add: availablePath_def base ext destinationPath_def numberedPath_def
        findAvailablePath.simps toStringRadix.simps digitChar_def digitChars_def)
  from availablePath_first_free [OF fin, of "[]" "''a.md''"] fin run
  show ?thesis by blast
qed

section \<open>The commands: destination, collisions and failures\<close>


lemma ensureFolderExists_effect:
  assumes "ensureFolderExists h folderPath s = (Inr (), s1)"
  shows "s1 = s \<or> (\<exists>a. createFolder h (app s) folderPath = Inr a \<and>
                      s1 = s\<lparr>calls := calls s @ [CreateFolder folderPath], app := a\<rparr>)"
  using assms
  by (auto simp: ensureFolderExists_def callCreateFolder_def Let_def
      split: if_splits option.splits sum.splits)









lemmas command_defs =
  moveCurrentFileToFolder_def duplicateFileToFolder_def moveTry_def duplicateTry_def
  ensureFolderExists_def getActiveFile_def getAbstractFileByPath_def
  callCreateFolder_def callRead_def callCreate_def callRenameFile_def callOpenFile_def
  Notice_def consoleError_def destinationPath_def orElse_def Let_def

lemma moveTry_free:
  assumes "ensureFolderExists h targetFolder s = (Inr (), s1)"
    and "getAbstractFileByPath s1
           (destinationPath targetFolder (processFilenameWithPrefix n addPrefix now)) = None"
  shows "\<exists>r s'. moveTry h now (TFile n p) targetFolder addPrefix s = (r, s') \<and>
           calls s' = calls s1 @ [RenameFile p
             (destinationPath targetFolder (processFilenameWithPrefix n addPrefix now))]"
  using assms
  by (auto simp: moveTry_def callRenameFile_def Notice_def Let_def split: sum.splits)

lemma move_calls_rename:
  assumes "getActiveFile s = Some (TFile n p)"
    and "ensureFolderExists h targetFolder s = (Inr (), s1)"
    and "getAbstractFileByPath s1
           (destinationPath targetFolder (processFilenameWithPrefix n addPrefix now)) = None"
  shows "calls (snd (moveCurrentFileToFolder h now targetFolder addPrefix s))
           = calls s1 @ [RenameFile p
               (destinationPath targetFolder (processFilenameWithPrefix n addPrefix now))]"
proof -
  from moveTry_free [OF assms(2,3), of p] obtain r s' where
    body: "moveTry h now (TFile n p) targetFolder addPrefix s = (r, s')"
    and c: "calls s' = calls s1 @ [RenameFile p
             (destinationPath targetFolder (processFilenameWithPrefix n addPrefix now))]"
    by blast
  from assms(1) body c show ?thesis
    by (cases r) (simp_all add: moveCurrentFileToFolder_def Notice_def consoleError_def)
qed

lemma availablePath_free:
  "\<not> ex (destinationPath targetFolder fileName) \<Longrightarrow>
     availablePath ex targetFolder fileName = Some (destinationPath targetFolder fileName)"
  by (simp add: availablePath_def findAvailablePath_free)

lemma duplicateTry_free:
  assumes "ensureFolderExists h targetFolder s = (Inr (), s1)"
    and "getAbstractFileByPath s1
           (destinationPath targetFolder (processFilenameWithPrefix n addPrefix now)) = None"
    and "read h (app s1) (TFile n p) = Inr content"
  shows "\<exists>r s' rest. duplicateTry h now (TFile n p) targetFolder addPrefix s = Some (r, s') \<and>
           calls s' = calls s1 @ [Read p, Create
             (destinationPath targetFolder (processFilenameWithPrefix n addPrefix now)) content]
             @ rest"
proof -
  let ?dest = "destinationPath targetFolder (processFilenameWithPrefix n addPrefix now)"
  let ?s2 = "s1\<lparr>calls := calls s1 @ [Read p]\<rparr>"
  have rd: "callRead h (TFile n p) s1 = (Inr content, ?s2)"
    using assms(3) by (simp add: callRead_def)
  have "\<not> (getAbstractFileByPath ?s2 ?dest \<noteq> None)"
    using assms(2) by (simp add: getAbstractFileByPath_def)
  then have av: "availablePath (\<lambda>q. getAbstractFileByPath ?s2 q \<noteq> None) targetFolder
          (processFilenameWithPrefix n addPrefix now) = Some ?dest"
    by (rule availablePath_free)
  show ?thesis
    using assms(1) rd av
    by (auto simp: duplicateTry_def callCreate_def callOpenFile_def Notice_def Let_def
        split: sum.splits prod.splits)
qed

lemma duplicate_calls_create:
  assumes "getActiveFile s = Some (TFile n p)"
    and "ensureFolderExists h targetFolder s = (Inr (), s1)"
    and "getAbstractFileByPath s1
           (destinationPath targetFolder (processFilenameWithPrefix n addPrefix now)) = None"
    and "read h (app s1) (TFile n p) = Inr content"
  shows "\<exists>r rest. duplicateFileToFolder h now targetFolder addPrefix s = Some r \<and>
           calls (snd r) = calls s1 @ [Read p, Create
             (destinationPath targetFolder (processFilenameWithPrefix n addPrefix now)) content]
             @ rest"
proof -
  from duplicateTry_free [OF assms(2,3,4)] obtain r s' rest where
    body: "duplicateTry h now (TFile n p) targetFolder addPrefix s = Some (r, s')"
    and c: "calls s' = calls s1 @ [Read p, Create
             (destinationPath targetFolder (processFilenameWithPrefix n addPrefix now)) content]
             @ rest"
    by blast
  from assms(1) body c show ?thesis
    by (cases r) (simp_all add: duplicateFileToFolder_def Notice_def consoleError_def)
qed

text \<open>
  Claim C5. The destination path is the bare file name when the target folder is the empty
  string and \<open>folder/filename\<close> otherwise. It is the path \<open>moveCurrentFileToFolder\<close> passes
  to the host's rename, and the path \<open>duplicateFileToFolder\<close> passes to the host's create,
  whenever nothing exists at that path.
\<close>

theorem destination_path_root_or_folder:
  "destinationPath [] fileName = fileName \<and>
   (targetFolder \<noteq> [] \<longrightarrow>
      destinationPath targetFolder fileName = targetFolder @ ''/'' @ fileName) \<and>
   (getActiveFile s = Some (TFile n p) \<and>
    ensureFolderExists h targetFolder s = (Inr (), t) \<and>
    getAbstractFileByPath t
      (destinationPath targetFolder (processFilenameWithPrefix n addPrefix now)) = None \<longrightarrow>
      calls (snd (moveCurrentFileToFolder h now targetFolder addPrefix s))
        = calls t @ [RenameFile p
            (destinationPath targetFolder (processFilenameWithPrefix n addPrefix now))]) \<and>
   (getActiveFile s = Some (TFile n p) \<and>
    ensureFolderExists h targetFolder s = (Inr (), t) \<and>
    getAbstractFileByPath t
      (destinationPath targetFolder (processFilenameWithPrefix n addPrefix now)) = None \<and>
    read h (app t) (TFile n p) = Inr content \<longrightarrow>
      (\<exists>r rest. duplicateFileToFolder h now targetFolder addPrefix s = Some r \<and>
         calls (snd r) = calls t @ [Read p, Create
             (destinationPath targetFolder (processFilenameWithPrefix n addPrefix now)) content]
             @ rest))"
proof -
  have root: "destinationPath [] fileName = fileName"
    by (simp add: destinationPath_def)
  have sub: "targetFolder \<noteq> [] \<longrightarrow>
      destinationPath targetFolder fileName = targetFolder @ ''/'' @ fileName"
    by (simp add: destinationPath_def)
  from root sub show ?thesis
    using move_calls_rename [of s n p h targetFolder t addPrefix now]
      duplicate_calls_create [of s n p h targetFolder t addPrefix now content]
    by blast
qed

lemmas eval_defs =
  command_defs memoryHost_def lastSegment_def failingHost_def rootFileState_def idleState_def
  processFilenameWithPrefix_def availablePath_def baseNameOf_def extensionOf_def
  numberedPath_def substring_def substringFrom_def clampIndex_def
  findAvailablePath.simps toStringRadix.simps digitChar_def digitChars_def

lemma parse_without_dot:
  assumes "CHR ''.'' \<notin> set fileName"
  shows "baseNameOf fileName = fileName \<and> extensionOf fileName = fileName"
proof -
  from assms have "lastIndexOf fileName CHR ''.'' = - 1" by (rule lastIndexOf_absent)
  then show ?thesis
    by (simp add: baseNameOf_def extensionOf_def substring_def substringFrom_def
        clampIndex_def orElse_def)
qed

text \<open>
  Claim C6. For a name without \<open>.\<close> the parse does not give an empty extension:
  \<open>lastIndexOf\<close> is \<open>-1\<close>, and \<open>substring(-1)\<close> is the whole name. Duplicating the root file
  \<open>README\<close> into the root creates \<open>README 1README\<close>, not \<open>README 1\<close>.
\<close>

theorem duplicate_without_extension_repeats_name:
  "baseNameOf ''README'' = ''README'' \<and> extensionOf ''README'' = ''README'' \<and>
   availablePath (\<lambda>p. p \<in> {''README''}) [] ''README'' = Some ''README 1README'' \<and>
   map_option (\<lambda>r. calls (snd r))
     (duplicateFileToFolder memoryHost 0 [] False (rootFileState ''README''))
     = Some [Read ''README'', Create ''README 1README'' ''text'', OpenFile ''README 1README'']"
proof -
  have parse: "baseNameOf ''README'' = ''README'' \<and> extensionOf ''README'' = ''README''"
    by (rule parse_without_dot) simp
  have gen: "availablePath (\<lambda>p. p \<in> {''README''}) [] ''README'' = Some ''README 1README''"
    by (simp add: availablePath_def parse destinationPath_def numberedPath_def
        findAvailablePath.simps toStringRadix.simps digitChar_def digitChars_def)
  have run: "map_option (\<lambda>r. calls (snd r))
     (duplicateFileToFolder memoryHost 0 [] False (rootFileState ''README''))
     = Some [Read ''README'', Create ''README 1README'' ''text'', OpenFile ''README 1README'']"
    by (simp add: eval_defs)
  from parse gen run show ?thesis by simp
qed

lemma parse_dotfile:
  assumes "CHR ''.'' \<notin> set rest"
  shows "baseNameOf (CHR ''.'' # rest) = CHR ''.'' # rest \<and>
         extensionOf (CHR ''.'' # rest) = CHR ''.'' # rest"
proof -
  from assms have "lastIndexOf (CHR ''.'' # rest) CHR ''.'' = 0"
    by (simp add: lastIndexOf_absent)
  then show ?thesis
    by (simp add: baseNameOf_def extensionOf_def substring_def substringFrom_def
        clampIndex_def orElse_def)
qed

lemma toStringRadix_one: "toStringRadix 10 1 = ''1''"
  by (simp add: toStringRadix.simps digitChar_def digitChars_def)

text \<open>
  Claim C9. For a name whose only \<open>.\<close> is its first character, both the base name and the
  extension of the parse are the whole name, so the first numbered alternative is the
  name, \<open>" 1"\<close>, and the name again; it is the path returned when the desired path is
  occupied and that alternative is free.
\<close>

theorem dotfile_numbering_repeats_name:
  assumes "fileName = CHR ''.'' # rest" and "CHR ''.'' \<notin> set rest"
  shows "baseNameOf fileName = fileName \<and> extensionOf fileName = fileName \<and>
         numberedPath targetFolder (baseNameOf fileName) (extensionOf fileName) 1
           = destinationPath targetFolder (fileName @ '' 1'' @ fileName) \<and>
         (exists (destinationPath targetFolder fileName) \<and>
          \<not> exists (destinationPath targetFolder (fileName @ '' 1'' @ fileName)) \<longrightarrow>
            availablePath exists targetFolder fileName
              = Some (destinationPath targetFolder (fileName @ '' 1'' @ fileName)))"
proof -
  from parse_dotfile [OF assms(2)] assms(1)
  have parse: "baseNameOf fileName = fileName" "extensionOf fileName = fileName" by simp_all
  have first: "numberedPath targetFolder fileName fileName 1
           = destinationPath targetFolder (fileName @ '' 1'' @ fileName)"
    unfolding numberedPath_def toStringRadix_one by simp
  have "availablePath exists targetFolder fileName
              = Some (destinationPath targetFolder (fileName @ '' 1'' @ fileName))"
    if taken: "exists (destinationPath targetFolder fileName)"
      and free: "\<not> exists (destinationPath targetFolder (fileName @ '' 1'' @ fileName))"
  proof -
    from free have free': "\<not> exists (numberedPath targetFolder fileName fileName 1)"
      unfolding first .
    have "findAvailablePath exists targetFolder fileName fileName
            (destinationPath targetFolder fileName) 1
          = findAvailablePath exists targetFolder fileName fileName
              (numberedPath targetFolder fileName fileName 1) (1 + 1)"
      using taken by (rule findAvailablePath_taken)
    also have "\<dots> = Some (numberedPath targetFolder fileName fileName 1, 1 + 1)"
      using free' by (rule findAvailablePath_free)
    finally show ?thesis
      unfolding availablePath_def Let_def parse by (simp only: first option.map fst_conv)
  qed
  with parse first show ?thesis by simp
qed

theorem dotfile_numbering_repeats_name_witness:
  "CHR ''.'' \<notin> set ''gitignore'' \<and>
   baseNameOf ''.gitignore'' = ''.gitignore'' \<and> extensionOf ''.gitignore'' = ''.gitignore'' \<and>
   availablePath (\<lambda>p. p = ''.gitignore'') [] ''.gitignore'' = Some ''.gitignore 1.gitignore''"
proof -
  have name: "''.gitignore'' = CHR ''.'' # ''gitignore''" by simp
  have nodot: "CHR ''.'' \<notin> set ''gitignore''" by simp
  from dotfile_numbering_repeats_name
    [OF name nodot, of "[]" "\<lambda>p. p = ''.gitignore''"] nodot
  show ?thesis by (simp add: destinationPath_def)
qed

text \<open>
  Claim C7. When the active item is a file and something exists at the destination path at
  the time of the check, \<open>moveCurrentFileToFolder\<close> returns normally with one more notice,
  and the host state and the list of host calls are those left by \<open>ensureFolderExists\<close>:
  no rename is performed. When the folder step succeeded the notice reads
  \<open>File already exists at <path>\<close> and nothing else changes.
\<close>

theorem move_collision_is_reported:
  assumes "getActiveFile s = Some (TFile n p)"
    and "ensureFolderExists h targetFolder s = (r, s1)"
    and "newPath = destinationPath targetFolder (processFilenameWithPrefix n addPrefix now)"
    and "getAbstractFileByPath s1 newPath \<noteq> None"
  shows "\<exists>s' message.
           moveCurrentFileToFolder h now targetFolder addPrefix s = (Inr (), s') \<and>
           app s' = app s1 \<and> calls s' = calls s1 \<and> notices s' = notices s1 @ [message] \<and>
           (r = Inr () \<longrightarrow> s' = Notice (''File already exists at '' @ newPath) s1)"
proof (cases r)
  case (Inl e)
  with assms(1,2) show ?thesis
    by (simp add: moveCurrentFileToFolder_def moveTry_def Notice_def consoleError_def)
next
  case (Inr u)
  with assms show ?thesis
    by (simp add: moveCurrentFileToFolder_def moveTry_def Notice_def Let_def)
qed

theorem move_collision_is_reported_witness:
  "getActiveFile collisionState = Some (TFile ''a.md'' ''a.md'') \<and>
   ensureFolderExists memoryHost ''Archive'' collisionState = (Inr (), collisionState) \<and>
   getAbstractFileByPath collisionState ''Archive/a.md'' \<noteq> None \<and>
   moveCurrentFileToFolder memoryHost 0 ''Archive'' False collisionState
     = (Inr (), Notice ''File already exists at Archive/a.md'' collisionState)"
proof -
  have act: "getActiveFile collisionState = Some (TFile ''a.md'' ''a.md'')"
    by (simp add: getActiveFile_def collisionState_def)
  have ens: "ensureFolderExists memoryHost ''Archive'' collisionState = (Inr (), collisionState)"
    by (simp add: ensureFolderExists_def getAbstractFileByPath_def collisionState_def)
  have dest: "''Archive/a.md'' = destinationPath ''Archive'' (processFilenameWithPrefix ''a.md'' False 0)"
    by (simp add: destinationPath_def processFilenameWithPrefix_def)
  have occ: "getAbstractFileByPath collisionState ''Archive/a.md'' \<noteq> None"
    by (simp add: getAbstractFileByPath_def collisionState_def)
  from move_collision_is_reported [OF act ens dest occ] act ens occ
  show ?thesis by auto
qed

lemma root_path_parent: "CHR ''/'' \<notin> set p \<Longrightarrow> substring p 0 (lastIndexOf p CHR ''/'') = []"
  by (simp add: lastIndexOf_absent substring_def clampIndex_def)

text \<open>
  Claim C10. For an active file in the vault root (no \<open>/\<close> in its path, so its name is its
  path) that the vault holds at its path, \<open>moveToParentFolder\<close> computes the empty parent,
  the destination is the file's own path, and the command only adds the notice
  \<open>File already exists at <path>\<close>: no host call is made and the vault is unchanged.
\<close>

theorem moveToParentFolder_of_root_file:
  assumes "getActiveFile s = Some (TFile n p)"
    and "CHR ''/'' \<notin> set p"
    and "n = p"
    and "getAbstractFileByPath s p = Some (TFile n p)"
  shows "substring p 0 (lastIndexOf p CHR ''/'') = [] \<and>
         destinationPath [] (processFilenameWithPrefix n False now) = p \<and>
         moveToParentFolder h now s = (Inr (), Notice (''File already exists at '' @ p) s)"
proof -
  have parent: "substring p 0 (lastIndexOf p CHR ''/'') = []"
    using assms(2) by (rule root_path_parent)
  have grand: "substring [] 0 (lastIndexOf [] CHR ''/'') = []"
    by (simp add: substring_def clampIndex_def)
  have dest: "destinationPath [] (processFilenameWithPrefix n False now) = p"
    using assms(3) by (simp add: destinationPath_def processFilenameWithPrefix_def)
  have "moveCurrentFileToFolder h now [] False s
          = (Inr (), Notice (''File already exists at '' @ p) s)"
    using assms(1,4) dest
    by (simp add: moveCurrentFileToFolder_def moveTry_def ensureFolderExists_def Let_def)
  with assms(1) parent grand dest show ?thesis
    by (simp add: moveToParentFolder_def Let_def)
qed

theorem moveToParentFolder_of_root_file_witness:
  "getActiveFile (rootFileState ''note.md'') = Some (TFile ''note.md'' ''note.md'') \<and>
   CHR ''/'' \<notin> set ''note.md'' \<and>
   getAbstractFileByPath (rootFileState ''note.md'') ''note.md''
     = Some (TFile ''note.md'' ''note.md'') \<and>
   moveToParentFolder memoryHost 0 (rootFileState ''note.md'')
     = (Inr (), Notice ''File already exists at note.md'' (rootFileState ''note.md''))"
proof -
  have act: "getActiveFile (rootFileState ''note.md'') = Some (TFile ''note.md'' ''note.md'')"
    by (simp add: getActiveFile_def rootFileState_def)
  have root: "CHR ''/'' \<notin> set ''note.md''" by simp
  have inv: "getAbstractFileByPath (rootFileState ''note.md'') ''note.md''
     = Some (TFile ''note.md'' ''note.md'')"
    by (simp add: getAbstractFileByPath_def rootFileState_def)
  from moveToParentFolder_of_root_file [OF act root refl inv, where h = memoryHost and now = 0]
    act root inv
  show ?thesis by simp
qed









theorem destination_path_root_or_folder_witness:
  "destinationPath [] ''b.md'' = ''b.md'' \<and>
   destinationPath ''Archive'' ''note.md'' = ''Archive/note.md'' \<and>
   calls (snd (moveCurrentFileToFolder memoryHost 0 [] False nestedFileState))
     = [RenameFile ''A/b.md'' ''b.md''] \<and>
   (\<exists>r rest. duplicateFileToFolder memoryHost 0 [] False nestedFileState = Some r \<and>
      calls (snd r) = [Read ''A/b.md'', Create ''b.md'' ''text''] @ rest)"
proof -
  have act: "getActiveFile nestedFileState = Some (TFile ''b.md'' ''A/b.md'')"
    by (simp add: getActiveFile_def nestedFileState_def)
  have ens: "ensureFolderExists memoryHost [] nestedFileState = (Inr (), nestedFileState)"
    by (simp add: ensureFolderExists_def)
  have dest: "destinationPath [] (processFilenameWithPrefix ''b.md'' False 0) = ''b.md''"
    by (simp add: destinationPath_def processFilenameWithPrefix_def)
  have free: "getAbstractFileByPath nestedFileState ''b.md'' = None"
    by (simp add: getAbstractFileByPath_def nestedFileState_def)
  have rd: "read memoryHost (app nestedFileState) (TFile ''b.md'' ''A/b.md'') = Inr ''text''"
    by (simp add: memoryHost_def)
  have c: "calls nestedFileState = []" by (simp add: nestedFileState_def)
  from destination_path_root_or_folder
    [where fileName = "''note.md''" and targetFolder = "''Archive''"]
  have sub: "destinationPath ''Archive'' ''note.md'' = ''Archive/note.md''" by simp
  from destination_path_root_or_folder
    [where fileName = "''b.md''" and targetFolder = "[]" and s = nestedFileState
       and t = nestedFileState and h = memoryHost and n = "''b.md''" and p = "''A/b.md''"
       and addPrefix = False and now = 0 and content = "''text''"]
    act ens free rd sub
  show ?thesis by (simp add: dest c)
qed

end
